theory Spec2Isabelle
  imports Main
begin

section \<open>Go standard-library string and path functions used by the file server\<close>

text \<open>
  Go strings are byte sequences; a \<^typ>\<open>string\<close> (a list of characters) models them.
  The functions below follow the Go standard library (packages \<open>strings\<close>, \<open>path\<close> and,
  on a Unix host where the separator is \<open>/\<close>, \<open>path/filepath\<close>).
\<close>

definition has_prefix :: "string \<Rightarrow> string \<Rightarrow> bool" where
  \<comment> \<open>\<open>strings.HasPrefix(s, prefix)\<close>\<close>
  "has_prefix s pre = (length pre \<le> length s \<and> take (length pre) s = pre)"

definition has_suffix :: "string \<Rightarrow> string \<Rightarrow> bool" where
  \<comment> \<open>\<open>strings.HasSuffix(s, suffix)\<close>\<close>
  "has_suffix s suf = (length suf \<le> length s \<and> drop (length s - length suf) s = suf)"

definition trim_prefix :: "string \<Rightarrow> string \<Rightarrow> string" where
  \<comment> \<open>\<open>strings.TrimPrefix(s, prefix)\<close>\<close>
  "trim_prefix s pre = (if has_prefix s pre then drop (length pre) s else s)"

definition trim_suffix :: "string \<Rightarrow> string \<Rightarrow> string" where
  \<comment> \<open>\<open>strings.TrimSuffix(s, suffix)\<close>\<close>
  "trim_suffix s suf = (if has_suffix s suf then take (length s - length suf) s else s)"

definition trim_left :: "string \<Rightarrow> char \<Rightarrow> string" where
  \<comment> \<open>\<open>strings.TrimLeft(s, cutset)\<close> for a cutset of one byte\<close>
  "trim_left s c = dropWhile (\<lambda>x. x = c) s"

fun last_index :: "string \<Rightarrow> char \<Rightarrow> int" where
  \<comment> \<open>\<open>strings.LastIndex(s, sep)\<close> for a separator of one byte: \<open>-1\<close> when absent\<close>
  "last_index [] c = -1"
| "last_index (x # xs) c =
     (let r = last_index xs c in
      if 0 \<le> r then r + 1 else if x = c then 0 else -1)"

fun split_on :: "string \<Rightarrow> char \<Rightarrow> string list" where
  \<comment> \<open>\<open>strings.Split(s, sep)\<close> for a separator of one byte: one part more than separators\<close>
  "split_on [] c = [[]]"
| "split_on (x # xs) c =
     (if x = c then [] # split_on xs c
      else (case split_on xs c of
              [] \<Rightarrow> [[x]]
            | part # parts \<Rightarrow> (x # part) # parts))"

fun join_with :: "string list \<Rightarrow> string \<Rightarrow> string" where
  \<comment> \<open>\<open>strings.Join(elems, sep)\<close>\<close>
  "join_with [] sep = []"
| "join_with [e] sep = e"
| "join_with (e # es) sep = e @ sep @ join_with es sep"

definition path_split :: "string \<Rightarrow> string \<times> string" where
  \<comment> \<open>\<open>path.Split\<close>: \<open>i := strings.LastIndex(path, "/"); return path[:i+1], path[i+1:]\<close>\<close>
  "path_split p = (let i = last_index p CHR ''/'' in (take (nat (i + 1)) p, drop (nat (i + 1)) p))"

fun clean_elems :: "bool \<Rightarrow> string list \<Rightarrow> string list \<Rightarrow> string list" where
  \<comment> \<open>The loop of \<open>path.Clean\<close> over the slash-separated elements; \<open>out\<close> is the output
      written so far, last element first. A \<open>..\<close> element removes the last real element;
      where there is none it is dropped on a rooted path and kept on a relative one.\<close>
  "clean_elems rooted [] out = out"
| "clean_elems rooted (e # es) out =
     (if e = [] \<or> e = ''.'' then clean_elems rooted es out
      else if e = ''..'' then
        (case out of
           [] \<Rightarrow> clean_elems rooted es (if rooted then [] else [''..''])
         | t # ts \<Rightarrow>
             if t \<noteq> ''..'' then clean_elems rooted es ts
             else clean_elems rooted es (if rooted then out else ''..'' # out))
      else clean_elems rooted es (e # out))"

definition path_clean :: "string \<Rightarrow> string" where
  \<comment> \<open>\<open>path.Clean\<close>\<close>
  "path_clean p =
     (if p = [] then ''.''
      else
        let rooted = (hd p = CHR ''/'');
            body = join_with (rev (clean_elems rooted (split_on p CHR ''/'') [])) ''/''
        in if rooted then CHR ''/'' # body
           else if body = [] then ''.'' else body)"

fun path_join :: "string list \<Rightarrow> string" where
  \<comment> \<open>\<open>path.Join\<close> (and \<open>filepath.Join\<close> on Unix): leading empty elements are ignored, the
      rest is joined with slashes and cleaned; the empty string when every element is empty\<close>
  "path_join [] = []"
| "path_join (e # es) = (if e \<noteq> [] then path_clean (join_with (e # es) ''/'') else path_join es)"

definition path_base :: "string \<Rightarrow> string" where
  \<comment> \<open>\<open>path.Base\<close>\<close>
  "path_base p =
     (if p = [] then ''.''
      else
        let q = rev (dropWhile (\<lambda>x. x = CHR ''/'') (rev p));
            i = last_index q CHR ''/'';
            b = (if 0 \<le> i then drop (nat (i + 1)) q else q)
        in if b = [] then ''/'' else b)"

fun ext_scan :: "string \<Rightarrow> string \<Rightarrow> string" where
  \<comment> \<open>The loop of \<open>filepath.Ext\<close>, from the last byte backwards, stopping at a separator\<close>
  "ext_scan [] acc = []"
| "ext_scan (x # xs) acc =
     (if x = CHR ''/'' then []
      else if x = CHR ''.'' then x # acc
      else ext_scan xs (x # acc))"

definition filepath_ext :: "string \<Rightarrow> string" where
  \<comment> \<open>\<open>filepath.Ext\<close>: the suffix from the final dot of the final element, or empty\<close>
  "filepath_ext p = ext_scan (rev p) []"

section \<open>Errors, files and the injected capabilities\<close>

text \<open>
  The package's two sentinel errors and the errors of the operating system that the
  server tells apart with \<open>os.IsNotExist\<close> and \<open>os.IsPermission\<close>; any other error
  is \<open>OtherError\<close> with a code.
\<close>

datatype error = ErrNotFound | ErrNotRegularFile | OsNotExist | OsPermission | OtherError nat

definition is_not_exist :: "error \<Rightarrow> bool" where
  "is_not_exist e = (e = OsNotExist)"

definition is_permission :: "error \<Rightarrow> bool" where
  "is_permission e = (e = OsPermission)"

datatype file_mode = Regular | Directory | Special

record file_info =
  fi_name :: string
  fi_mod_time :: nat
  fi_mode :: file_mode

definition is_dir :: "file_info \<Rightarrow> bool" where
  "is_dir d = (fi_mode d = Directory)"

definition is_regular :: "file_info \<Rightarrow> bool" where
  "is_regular d = (fi_mode d = Regular)"

text \<open>An open \<open>http.File\<close>: what \<open>Stat\<close> returns on it, and its bytes.\<close>

record http_file =
  f_stat :: "error + file_info"
  f_bytes :: string

text \<open>The \<open>Hasher\<close> interface: \<open>Hash\<close> returns a digest and an error, \<open>IsHash\<close> classifies a string.\<close>

record hasher =
  Hash :: "http_file \<Rightarrow> string \<times> error option"
  IsHash :: "string \<Rightarrow> bool"

text \<open>
  The world outside the server: the package-level function \<open>open(dir, path, filesystem)\<close>,
  which is not part of \<open>server.go\<close> and is taken as a parameter (the configured
  \<open>Filesystem\<close> is part of it), and \<open>filepath.Glob\<close>.
\<close>

record world =
  fs_open :: "string \<Rightarrow> string \<Rightarrow> error + http_file"
  fs_glob :: "string \<Rightarrow> error + string list"

text \<open>The fields of \<open>Server\<close> and of the embedded \<open>Options\<close> that \<open>server.go\<close> reads.\<close>

record server =
  root :: string
  dir :: string
  AltDir :: string
  IndexPage :: string
  RedirectTrailingSlash :: bool
  NoHashQueryStrings :: bool
  Filenames :: "string list option"
  Hasher :: "hasher option"

text \<open>
  The mutable part: the \<open>hashes\<close> map, and a log of every call that leaves the server
  (a filesystem open, a glob, a call of \<open>Hasher.Hash\<close>), so that a statement can say
  that an operation performed none.
\<close>

datatype io_event = EvOpen string string | EvGlob string | EvHash string

record state =
  hashes :: "string \<rightharpoonup> string"
  io_log :: "io_event list"

section \<open>The path codec\<close>

definition hashedPath :: "string \<Rightarrow> string \<Rightarrow> string" where
  \<comment> \<open>\<open>server.go\<close>, lines 279-292\<close>
  "hashedPath p h =
     (if h = [] then p
      else
        let (d, f) = path_split p;
            i = last_index f CHR ''.''
        in if 0 < i then d @ take (nat i) f @ ''.'' @ h @ drop (nat i) f
           else d @ f @ ''.'' @ h)"

fun canonical_loop :: "hasher \<Rightarrow> nat \<Rightarrow> nat \<Rightarrow> string list \<Rightarrow> string \<Rightarrow> string" where
  \<comment> \<open>The \<open>for i, part := range parts\<close> loop of \<open>canonicalPath\<close>: \<open>k\<close> is \<open>l - index\<close>,
      \<open>i\<close> the position of the next part, \<open>f\<close> the filename built so far\<close>
  "canonical_loop hs k i [] f = f"
| "canonical_loop hs k i (part # parts) f =
     (if i = k \<and> IsHash hs part then canonical_loop hs k (Suc i) parts f
      else canonical_loop hs k (Suc i) parts ((if i \<noteq> 0 then f @ ''.'' else f) @ part))"

definition canonicalPath :: "hasher \<Rightarrow> string \<Rightarrow> string" where
  \<comment> \<open>\<open>server.go\<close>, lines 294-315. \<open>strings.Split\<close> returns at least one part, so
      \<open>index \<le> l\<close> and the natural-number difference \<open>l - index\<close> is exact\<close>
  "canonicalPath hs p =
     (let (d, f) = path_split p;
          parts = split_on f CHR ''.'';
          l = length parts;
          index = (if 2 < l \<and> \<not> (l = 3 \<and> parts ! 0 = []) then 2 else 1)
      in d @ canonical_loop hs (l - index) 0 parts [])"

section \<open>The file resolver\<close>

definition open_in :: "world \<Rightarrow> string \<Rightarrow> string \<Rightarrow> state \<Rightarrow> (error + http_file) \<times> state" where
  \<comment> \<open>One call of the package-level \<open>open(dir, p, s.Filesystem)\<close>, logged\<close>
  "open_in w d p st = (fs_open w d p, st\<lparr>io_log := io_log st @ [EvOpen d p]\<rparr>)"

definition server_open :: "server \<Rightarrow> world \<Rightarrow> string \<Rightarrow> state \<Rightarrow> (error + http_file) \<times> state" where
  \<comment> \<open>The method \<open>Server.open\<close>, lines 317-326; \<open>os.IsNotExist\<close> of a nil error is false\<close>
  "server_open s w p st =
     (if AltDir s = [] then open_in w (dir s) p st
      else
        (case open_in w (AltDir s) p st of
           (Inl e, st1) \<Rightarrow> if is_not_exist e then open_in w (dir s) p st1 else (Inl e, st1)
         | (Inr f, st1) \<Rightarrow> (Inr f, st1)))"

section \<open>The hash cache\<close>

text \<open>
  \<open>hash\<close> and \<open>hashFromFilename\<close> return the triple \<open>(h, cont, err)\<close> of the Go methods
  and the state they leave. Both are called only where \<open>s.Hasher\<close> is not nil; the
  hasher is passed to them.
\<close>

definition hash :: "server \<Rightarrow> hasher \<Rightarrow> world \<Rightarrow> string \<Rightarrow> state \<Rightarrow> (string \<times> bool \<times> error option) \<times> state" where
  \<comment> \<open>Lines 179-212. On a miss \<open>h\<close> is the zero value of the map lookup, the empty string\<close>
  "hash s hs w p st =
     (case hashes st p of
        Some h \<Rightarrow> ((h, False, None), st)
      | None \<Rightarrow>
          (case server_open s w p st of
             (Inl e, st1) \<Rightarrow> (([], True, Some e), st1)
           | (Inr f, st1) \<Rightarrow>
               (case f_stat f of
                  Inl e \<Rightarrow> (([], True, Some e), st1)
                | Inr d \<Rightarrow>
                    if \<not> is_regular d then (([], False, Some ErrNotRegularFile), st1)
                    else
                      let st2 = st1\<lparr>io_log := io_log st1 @ [EvHash p]\<rparr> in
                      (case Hash hs f of
                         (h, Some e) \<Rightarrow> ((h, False, Some e), st2)
                       | (h, None) \<Rightarrow> ((h, False, None), st2\<lparr>hashes := (hashes st2)(p \<mapsto> h)\<rparr>)))))"

definition filename_matches :: "server \<Rightarrow> string \<Rightarrow> string list \<Rightarrow> string list" where
  \<comment> \<open>The scan of \<open>s.Filenames\<close>: a filename may be appended twice\<close>
  "filename_matches s fn filenames =
     (let prefix = path_join [dir s, fn];
          altPrefix = path_join [AltDir s, fn]
      in concat (map (\<lambda>filename.
           (if AltDir s \<noteq> [] \<and> has_prefix filename altPrefix then [filename] else []) @
           (if has_prefix filename prefix then [filename] else [])) filenames))"

definition glob_in :: "world \<Rightarrow> string \<Rightarrow> state \<Rightarrow> (error + string list) \<times> state" where
  \<comment> \<open>One call of \<open>filepath.Glob\<close>, logged\<close>
  "glob_in w pat st = (fs_glob w pat, st\<lparr>io_log := io_log st @ [EvGlob pat]\<rparr>)"

definition glob_matches :: "server \<Rightarrow> world \<Rightarrow> string \<Rightarrow> string \<Rightarrow> string \<Rightarrow> state \<Rightarrow> (error + string list) \<times> state" where
  \<comment> \<open>The branch without \<open>s.Filenames\<close>: glob the alternate directory, then the primary one\<close>
  "glob_matches s w p ext fn st =
     (let pattern = (if ext \<noteq> [] then fn @ ''.*'' @ ext else p @ ''.*'') in
      case (if AltDir s \<noteq> [] then glob_in w (path_join [AltDir s, pattern]) st else (Inr [], st)) of
        (Inl e, st1) \<Rightarrow> (Inl e, st1)
      | (Inr matches, st1) \<Rightarrow>
          (case glob_in w (path_join [dir s, pattern]) st1 of
             (Inl e, st2) \<Rightarrow> (Inl e, st2)
           | (Inr m, st2) \<Rightarrow> (Inr (matches @ m), st2)))"

definition is_candidate :: "hasher \<Rightarrow> string \<Rightarrow> string \<Rightarrow> bool" where
  \<comment> \<open>\<open>strings.HasSuffix(s.canonicalPath(match), p)\<close>\<close>
  "is_candidate hs p match = has_suffix (canonicalPath hs match) p"

definition digest_segment :: "string \<Rightarrow> string \<Rightarrow> string" where
  \<comment> \<open>\<open>strings.TrimLeft(filepath.Ext(strings.TrimSuffix(match, ext)), ".")\<close>\<close>
  "digest_segment ext match = trim_left (filepath_ext (trim_suffix match ext)) CHR ''.''"

fun scan_matches :: "hasher \<Rightarrow> string \<Rightarrow> string \<Rightarrow> string list \<Rightarrow> string \<Rightarrow> string option" where
  \<comment> \<open>The \<open>for _, match := range matches\<close> loop of \<open>hashFromFilename\<close>: \<open>None\<close> when it
      leaves through \<open>return "", true, errNotFound\<close>, else the last value of \<open>h\<close>\<close>
  "scan_matches hs p ext [] h = Some h"
| "scan_matches hs p ext (match # matches) h =
     (if is_candidate hs p match then
        (let h' = digest_segment ext match in
         if \<not> IsHash hs h' then None else scan_matches hs p ext matches h')
      else scan_matches hs p ext matches h)"

definition find_matches :: "server \<Rightarrow> world \<Rightarrow> string \<Rightarrow> state \<Rightarrow> (error + string list) \<times> state" where
  \<comment> \<open>The part of \<open>hashFromFilename\<close> that fills \<open>matches\<close>: from \<open>s.Filenames\<close> when it is
      not nil, else from the two globs; \<open>Inl\<close> is a glob's error\<close>
  "find_matches s w p st =
     (let ext = filepath_ext p;
          fn = trim_suffix p ext
      in case Filenames s of
           Some filenames \<Rightarrow> (Inr (filename_matches s fn filenames), st)
         | None \<Rightarrow> glob_matches s w p ext fn st)"

definition hashFromFilename :: "server \<Rightarrow> hasher \<Rightarrow> world \<Rightarrow> string \<Rightarrow> state \<Rightarrow> (string \<times> bool \<times> error option) \<times> state" where
  \<comment> \<open>Lines 214-277\<close>
  "hashFromFilename s hs w p st =
     (case hashes st p of
        Some h \<Rightarrow> ((h, False, None), st)
      | None \<Rightarrow>
          (case find_matches s w p st of
             (Inl e, st1) \<Rightarrow> (([], True, Some e), st1)
           | (Inr matches, st1) \<Rightarrow>
               (case scan_matches hs p (filepath_ext p) matches [] of
                  None \<Rightarrow> (([], True, Some ErrNotFound), st1)
                | Some h \<Rightarrow> ((h, False, None), st1\<lparr>hashes := (hashes st1)(p \<mapsto> h)\<rparr>))))"

section \<open>The public entry points\<close>

definition HashedPath :: "server \<Rightarrow> world \<Rightarrow> string \<Rightarrow> state \<Rightarrow> (error + string) \<times> state" where
  \<comment> \<open>Lines 139-153\<close>
  "HashedPath s w p st =
     (case Hasher s of
        None \<Rightarrow> (Inr (path_join [root s, p]), st)
      | Some hs \<Rightarrow>
          (case hash s hs w p st of
             ((h, cont, None), st1) \<Rightarrow> (Inr (path_join [root s, hashedPath p h]), st1)
           | ((h, cont, Some e), st1) \<Rightarrow>
               if cont then
                 (case hashFromFilename s hs w p st1 of
                    ((h', c', None), st2) \<Rightarrow> (Inr (path_join [root s, hashedPath p h']), st2)
                  | ((h', c', Some e'), st2) \<Rightarrow> (Inl e', st2))
               else (Inl e, st1)))"

text \<open>
  What \<open>ServeHTTP\<close> writes: a call of the helper \<open>redirect\<close> with its location, a call of
  \<open>httpError\<close> with the error it was given and the handler that error selects, or a call
  of \<open>http.ServeContent\<close>. \<open>Panic\<close> stands for indexing the last byte of an empty string.
\<close>

datatype handler = NotFoundHandler | ForbiddenHandler | InternalServerErrorHandler

datatype response =
    Redirect string
  | HttpError handler error
  | ServeContent string nat http_file
  | Panic

definition httpError :: "error \<Rightarrow> response" where
  \<comment> \<open>Lines 155-177: the handler that the error selects\<close>
  "httpError err =
     (if is_not_exist err \<or> err = ErrNotFound then HttpError NotFoundHandler err
      else if is_permission err then HttpError ForbiddenHandler err
      else HttpError InternalServerErrorHandler err)"

record request =
  url_path :: string
  raw_query :: string

definition slash_redirect :: "file_info \<Rightarrow> string \<Rightarrow> response option" where
  \<comment> \<open>The \<open>RedirectTrailingSlash\<close> block after \<open>Stat\<close>, lines 102-115; \<open>url\<close> is \<open>r.URL.Path\<close>\<close>
  "slash_redirect d url =
     (if url = [] then Some Panic
      else if is_dir d then
        (if last url \<noteq> CHR ''/'' then Some (Redirect (url @ ''/'')) else None)
      else
        (if last url = CHR ''/'' then Some (Redirect (''../'' @ path_base url)) else None))"

definition serve_index :: "server \<Rightarrow> world \<Rightarrow> string \<Rightarrow> file_info \<Rightarrow> http_file \<Rightarrow> state \<Rightarrow> (file_info \<times> http_file) \<times> state" where
  \<comment> \<open>The first \<open>if d.IsDir()\<close> block, lines 117-128: the index page replaces the
      directory when it opens and stats\<close>
  "serve_index s w p d f st =
     (if is_dir d then
        (case server_open s w (trim_suffix p ''/'' @ IndexPage s) st of
           (Inl e, st1) \<Rightarrow> ((d, f), st1)
         | (Inr ff, st1) \<Rightarrow>
             (case f_stat ff of
                Inl e \<Rightarrow> ((d, f), st1)
              | Inr dd \<Rightarrow> ((dd, ff), st1)))
      else ((d, f), st))"

definition serve_path :: "server \<Rightarrow> world \<Rightarrow> string \<Rightarrow> string \<Rightarrow> state \<Rightarrow> response \<times> state" where
  \<comment> \<open>\<open>ServeHTTP\<close> from \<open>f, err := s.open(p)\<close> to its end, lines 89-135; \<open>url\<close> is
      \<open>r.URL.Path\<close> at that point\<close>
  "serve_path s w p url st =
     (case server_open s w p st of
        (Inl e, st1) \<Rightarrow> (httpError e, st1)
      | (Inr f, st1) \<Rightarrow>
          (case f_stat f of
             Inl e \<Rightarrow> (httpError e, st1)
           | Inr d \<Rightarrow>
               (case (if RedirectTrailingSlash s then slash_redirect d url else None) of
                  Some resp \<Rightarrow> (resp, st1)
                | None \<Rightarrow>
                    (case serve_index s w p d f st1 of
                       ((d', f'), st2) \<Rightarrow>
                         if is_dir d' then (httpError ErrNotFound, st2)
                         else (ServeContent (fi_name d') (fi_mod_time d') f', st2)))))"

definition request_urlPath :: "request \<Rightarrow> string" where
  \<comment> \<open>Lines 46-50: \<open>urlPath\<close>, which is also \<open>r.URL.Path\<close> from there on\<close>
  "request_urlPath r = (if \<not> has_prefix (url_path r) ''/'' then ''/'' @ url_path r else url_path r)"

definition request_p :: "server \<Rightarrow> request \<Rightarrow> string" where
  \<comment> \<open>Lines 51-54: \<open>p\<close> after \<open>path.Clean\<close> and, with a root, \<open>strings.TrimPrefix\<close>\<close>
  "request_p s r =
     (let p = path_clean (request_urlPath r) in
      if root s \<noteq> [] then trim_prefix p (root s) else p)"

definition hash_enabled :: "server \<Rightarrow> request \<Rightarrow> bool" where
  \<comment> \<open>Lines 65-66: the condition of the hash block without its \<open>s.Hasher != nil\<close>\<close>
  "hash_enabled s r =
     (\<not> NoHashQueryStrings s \<or> (NoHashQueryStrings s \<and> length (raw_query r) = 0))"

definition ServeHTTP :: "server \<Rightarrow> world \<Rightarrow> request \<Rightarrow> state \<Rightarrow> response \<times> state" where
  \<comment> \<open>Lines 45-88, then \<open>serve_path\<close>. The \<open>switch err\<close> is the test for
      \<open>errNotRegularFile\<close>, then \<open>nil\<close>, then the default\<close>
  "ServeHTTP s w r st =
     (let urlPath = request_urlPath r;
          p = request_p s r
      in
      if root s \<noteq> [] \<and> length urlPath \<le> length p then (httpError ErrNotFound, st)
      else if IndexPage s \<noteq> [] \<and> has_suffix urlPath (IndexPage s) then (Redirect ''./'', st)
      else
        (case Hasher s of
           None \<Rightarrow> serve_path s w p urlPath st
         | Some hs \<Rightarrow>
             if \<not> hash_enabled s r then serve_path s w p urlPath st
             else
               (let cPath = canonicalPath hs p in
                case hash s hs w cPath st of
                  ((h, cont, err), st1) \<Rightarrow>
                    if err = Some ErrNotRegularFile then serve_path s w p urlPath st1
                    else
                      (case err of
                         None \<Rightarrow>
                           (let hPath = hashedPath cPath h in
                            if hPath \<noteq> p then (Redirect (path_join [root s, hPath]), st1)
                            else if RedirectTrailingSlash s \<and> last urlPath = CHR ''/''
                              then (Redirect (path_join [root s, p]), st1)
                            else serve_path s w cPath (path_join [root s, cPath]) st1)
                       | Some e \<Rightarrow>
                           if \<not> cont then (httpError e, st1)
                           else serve_path s w p urlPath st1))))"

section \<open>Predicates and test doubles used in the statements\<close>

definition fixed_hasher :: "string \<Rightarrow> hasher" where
  \<comment> \<open>A stub \<open>Hasher\<close>: every file hashes to \<open>h\<close>, and only \<open>h\<close> is classified as a digest\<close>
  "fixed_hasher h = \<lparr>Hash = (\<lambda>f. (h, None)), IsHash = (\<lambda>x. x = h)\<rparr>"

definition no_digest_component :: "hasher \<Rightarrow> string \<Rightarrow> bool" where
  \<comment> \<open>No dot-separated component of the path is classified as a digest\<close>
  "no_digest_component hs c = list_all (\<lambda>part. \<not> IsHash hs part) (split_on c CHR ''.'')"

definition new_server :: "string \<Rightarrow> string \<Rightarrow> server" where
  \<comment> \<open>\<open>New(root, dir, nil)\<close>: every option has its zero value\<close>
  "new_server r d =
     \<lparr>root = r, dir = d, AltDir = [], IndexPage = [], RedirectTrailingSlash = False,
      NoHashQueryStrings = False, Filenames = None, Hasher = None\<rparr>"

definition new_state :: state where
  \<comment> \<open>The empty \<open>hashes\<close> map of \<open>New\<close>, and nothing logged\<close>
  "new_state = \<lparr>hashes = Map.empty, io_log = []\<rparr>"

definition regular_file :: "string \<Rightarrow> http_file" where
  "regular_file name =
     \<lparr>f_stat = Inr \<lparr>fi_name = name, fi_mod_time = 0, fi_mode = Regular\<rparr>, f_bytes = ''body''\<rparr>"

definition directory :: "string \<Rightarrow> http_file" where
  "directory name =
     \<lparr>f_stat = Inr \<lparr>fi_name = name, fi_mod_time = 0, fi_mode = Directory\<rparr>, f_bytes = []\<rparr>"

definition one_entry_world :: "string \<Rightarrow> string \<Rightarrow> http_file \<Rightarrow> world" where
  \<comment> \<open>A filesystem with one entry: \<open>path\<close> under directory \<open>d\<close>; every other open fails
      with a not-exist error, and no glob matches\<close>
  "one_entry_world d path f =
     \<lparr>fs_open = (\<lambda>d' p'. if d' = d \<and> p' = path then Inr f else Inl OsNotExist),
      fs_glob = (\<lambda>pat. Inr [])\<rparr>"

definition alt_error_world :: "string \<Rightarrow> error \<Rightarrow> string \<Rightarrow> string \<Rightarrow> http_file \<Rightarrow> world" where
  \<comment> \<open>Every open under \<open>alt\<close> fails with \<open>e\<close>; under \<open>d\<close> only \<open>path\<close> exists\<close>
  "alt_error_world alt e d path f =
     \<lparr>fs_open = (\<lambda>d' p'. if d' = alt then Inl e
                          else if d' = d \<and> p' = path then Inr f else Inl OsNotExist),
      fs_glob = (\<lambda>pat. Inr [])\<rparr>"

section \<open>Facts about the string functions\<close>

lemma last_index_notin: "c \<notin> set s \<Longrightarrow> last_index s c = -1"
  by (induction s) (auto simp: Let_def)

lemma last_index_append: "c \<notin> set ys \<Longrightarrow> last_index (xs @ c # ys) c = int (length xs)"
  by (induction xs) (auto simp: Let_def last_index_notin)

lemma path_split_append:
  assumes "CHR ''/'' \<notin> set g" and "d = [] \<or> last d = CHR ''/''"
  shows "path_split (d @ g) = (d, g)"
proof (cases "d = []")
  case True
  with assms show ?thesis by (simp add: path_split_def last_index_notin)
next
  case False
  with assms(2) obtain d' where d: "d = d' @ [CHR ''/'']"
    by (metis append_butlast_last_id)
  have "last_index (d' @ CHR ''/'' # g) CHR ''/'' = int (length d')"
    using assms(1) by (rule last_index_append)
  then show ?thesis by (simp add: path_split_def d Let_def nat_add_distrib)
qed

lemma path_split_shape:
  assumes "path_split p = (d, f)"
  shows "p = d @ f \<and> CHR ''/'' \<notin> set f \<and> (d = [] \<or> last d = CHR ''/'')"
proof (cases "CHR ''/'' \<in> set p")
  case False
  with assms show ?thesis by (auto simp: path_split_def last_index_notin)
next
  case True
  then obtain xs ys where p: "p = xs @ CHR ''/'' # ys" and ys: "CHR ''/'' \<notin> set ys"
    by (meson split_list_last)
  have "last_index p CHR ''/'' = int (length xs)"
    unfolding p using ys by (rule last_index_append)
  with assms p ys show ?thesis by (auto simp: path_split_def Let_def nat_add_distrib)
qed

lemma split_on_nonempty: "split_on s c \<noteq> []"
  by (induction s) (auto split: list.splits)

lemma split_on_notin: "c \<notin> set s \<Longrightarrow> split_on s c = [s]"
  by (induction s) auto

lemma split_on_append: "split_on (a @ c # b) c = split_on a c @ split_on b c"
  by (induction a) (auto split: list.splits simp: split_on_nonempty)

lemma join_split_on: "join_with (split_on s c) [c] = s"
proof (induction s)
  case Nil
  then show ?case by simp
next
  case (Cons x xs)
  show ?case
  proof (cases "x = c")
    case True
    with Cons show ?thesis by (cases "split_on xs c") (auto simp: split_on_nonempty)
  next
    case False
    with Cons show ?thesis
      by (cases "split_on xs c"; cases "tl (split_on xs c)") (auto simp: split_on_nonempty)
  qed
qed


lemma canonical_loop_prefix:
  "i + length xs \<le> k \<Longrightarrow> xs \<noteq> [] \<Longrightarrow> (i = 0 \<longrightarrow> f = []) \<Longrightarrow>
   canonical_loop hs k i (xs @ ys) f =
     canonical_loop hs k (i + length xs) ys
       (if i = 0 then join_with xs ''.'' else f @ ''.'' @ join_with xs ''.'')"
proof (induction xs arbitrary: i f)
  case Nil
  then show ?case by simp
next
  case (Cons x xs)
  show ?case
  proof (cases "xs = []")
    case True
    with Cons.prems show ?thesis by auto
  next
    case False
    then obtain y zs where xs: "xs = y # zs" by (cases xs) auto
    have "canonical_loop hs k (Suc i) (xs @ ys) ((if i \<noteq> 0 then f @ ''.'' else f) @ x) =
          canonical_loop hs k (Suc i + length xs) ys
            (((if i \<noteq> 0 then f @ ''.'' else f) @ x) @ ''.'' @ join_with xs ''.'')"
      using Cons.IH[of "Suc i" "(if i \<noteq> 0 then f @ ''.'' else f) @ x"] Cons.prems False by simp
    with Cons.prems show ?thesis by (auto simp: xs)
  qed
qed

lemma canonical_loop_strip:
  assumes "ps \<noteq> []" and "IsHash hs h"
  shows "canonical_loop hs (length ps) 0 (ps @ [h, b]) [] = join_with ps ''.'' @ ''.'' @ b"
  using canonical_loop_prefix[of 0 ps "length ps" "[]" hs "[h, b]"] assms by simp

lemma canonicalPath_strip_middle:
  assumes a: "a \<noteq> []" and b: "CHR ''.'' \<notin> set b" and h: "CHR ''.'' \<notin> set h"
    and ih: "IsHash hs h"
    and sl: "CHR ''/'' \<notin> set (a @ ''.'' @ h @ ''.'' @ b)" and d: "d = [] \<or> last d = CHR ''/''"
  shows "canonicalPath hs (d @ a @ ''.'' @ h @ ''.'' @ b) = d @ a @ ''.'' @ b"
proof -
  let ?ps = "split_on a CHR ''.''"
  have ps: "?ps \<noteq> []" by (rule split_on_nonempty)
  have sp: "path_split (d @ a @ ''.'' @ h @ ''.'' @ b) = (d, a @ ''.'' @ h @ ''.'' @ b)"
    using path_split_append[OF sl d] by simp
  have parts: "split_on (a @ ''.'' @ h @ ''.'' @ b) CHR ''.'' = ?ps @ [h, b]"
    using split_on_append[of a "CHR ''.''" "h @ ''.'' @ b"] split_on_append[of h "CHR ''.''" b]
      split_on_notin[OF b] split_on_notin[OF h] by simp
  have first: "?ps ! 0 = [] \<Longrightarrow> length ?ps \<noteq> 1"
  proof
    assume e: "?ps ! 0 = []" and l: "length ?ps = 1"
    then have "?ps = [[]]" by (cases ?ps) auto
    then have "join_with ?ps ''.'' = []" by simp
    with a show False by (simp add: join_split_on)
  qed
  have idx: "(if 2 < length (?ps @ [h, b]) \<and> \<not> (length (?ps @ [h, b]) = 3 \<and> (?ps @ [h, b]) ! 0 = [])
              then 2 else 1) = (2::nat)"
    using ps first by (cases ?ps) (auto simp: nth_append)
  have "canonicalPath hs (d @ a @ ''.'' @ h @ ''.'' @ b) =
        d @ canonical_loop hs (length ?ps) 0 (?ps @ [h, b]) []"
    unfolding canonicalPath_def sp parts Let_def prod.case idx by simp
  also have "\<dots> = d @ join_with ?ps ''.'' @ ''.'' @ b"
    using canonical_loop_strip[OF ps ih] by simp
  finally show ?thesis by (simp add: join_split_on)
qed

lemma canonicalPath_strip_last:
  assumes f: "CHR ''.'' \<notin> set f" and h: "CHR ''.'' \<notin> set h" and ih: "IsHash hs h"
    and sl: "CHR ''/'' \<notin> set (f @ ''.'' @ h)" and d: "d = [] \<or> last d = CHR ''/''"
  shows "canonicalPath hs (d @ f @ ''.'' @ h) = d @ f"
proof -
  have sp: "path_split (d @ f @ ''.'' @ h) = (d, f @ ''.'' @ h)"
    using path_split_append[OF sl d] by simp
  have parts: "split_on (f @ ''.'' @ h) CHR ''.'' = [f, h]"
    using split_on_append[of f "CHR ''.''" h] split_on_notin[OF f] split_on_notin[OF h] by simp
  show ?thesis
    unfolding canonicalPath_def sp parts Let_def prod.case using ih by simp
qed

lemma canonicalPath_dot_two:
  assumes b: "CHR ''.'' \<notin> set b" and sl: "CHR ''/'' \<notin> set b" and d: "d = [] \<or> last d = CHR ''/''"
  shows "canonicalPath hs (d @ ''.'' @ b) = (if IsHash hs b then d else d @ ''.'' @ b)"
proof -
  have sl': "CHR ''/'' \<notin> set (''.'' @ b)" using sl by simp
  have sp: "path_split (d @ ''.'' @ b) = (d, ''.'' @ b)"
    using path_split_append[OF sl' d] by simp
  have parts: "split_on (''.'' @ b) CHR ''.'' = [[], b]"
    using split_on_notin[OF b] by simp
  show ?thesis
    unfolding canonicalPath_def sp parts Let_def prod.case by simp
qed

lemma canonicalPath_dot_three:
  assumes b: "CHR ''.'' \<notin> set b" and h: "CHR ''.'' \<notin> set h"
    and sl: "CHR ''/'' \<notin> set (b @ h)" and d: "d = [] \<or> last d = CHR ''/''"
  shows "canonicalPath hs (d @ ''.'' @ b @ ''.'' @ h) =
           (if IsHash hs h then d @ ''.'' @ b else d @ ''.'' @ b @ ''.'' @ h)"
proof -
  have sl': "CHR ''/'' \<notin> set (''.'' @ b @ ''.'' @ h)" using sl by simp
  have sp: "path_split (d @ ''.'' @ b @ ''.'' @ h) = (d, ''.'' @ b @ ''.'' @ h)"
    using path_split_append[OF sl' d] by simp
  have parts: "split_on (''.'' @ b @ ''.'' @ h) CHR ''.'' = [[], b, h]"
    using split_on_append[of b "CHR ''.''" h] split_on_notin[OF b] split_on_notin[OF h] by simp
  show ?thesis
    unfolding canonicalPath_def sp parts Let_def prod.case by simp
qed


section \<open>Path codec: identity, round trip, dotfiles\<close>

text \<open>
  C9. Empty-digest identity: for every path \<open>c\<close>, \<open>hashedPath(c, "")\<close> is \<open>c\<close> unchanged.
\<close>

theorem hashedPath_empty_digest: "hashedPath c [] = c"
  by (simp add: hashedPath_def)

text \<open>
  C1. Round-trip law. As stated (every non-empty \<open>h\<close> with \<open>IsHash(h)\<close>, every \<open>c\<close> without
  a component classified as a digest) the law fails for a digest that contains a slash
  or a dot: a slash moves the boundary that \<open>path.Split\<close> finds, a dot makes the digest
  two parts of which \<open>canonicalPath\<close> removes at most one. The path \<open>/app.css\<close> has no
  digest component, whether the whole path or only its filename \<open>app.css\<close> is split.
\<close>

theorem roundtrip_counterexample:
  "IsHash (fixed_hasher ''ab/cd'') ''ab/cd'' \<and> ''ab/cd'' \<noteq> [] \<and>
   no_digest_component (fixed_hasher ''ab/cd'') ''/app.css'' \<and>
   no_digest_component (fixed_hasher ''ab/cd'') ''app.css'' \<and>
   hashedPath ''/app.css'' ''ab/cd'' = ''/app.ab/cd.css'' \<and>
   canonicalPath (fixed_hasher ''ab/cd'') (hashedPath ''/app.css'' ''ab/cd'') = ''/app.ab/cd.css'' \<and>
   canonicalPath (fixed_hasher ''ab/cd'') (hashedPath ''/app.css'' ''ab/cd'') \<noteq> ''/app.css'' \<and>
   IsHash (fixed_hasher ''ab.cd'') ''ab.cd'' \<and> ''ab.cd'' \<noteq> [] \<and>
   no_digest_component (fixed_hasher ''ab.cd'') ''/app.css'' \<and>
   no_digest_component (fixed_hasher ''ab.cd'') ''app.css'' \<and>
   hashedPath ''/app.css'' ''ab.cd'' = ''/app.ab.cd.css'' \<and>
   canonicalPath (fixed_hasher ''ab.cd'') (hashedPath ''/app.css'' ''ab.cd'') = ''/app.ab.cd.css'' \<and>
   canonicalPath (fixed_hasher ''ab.cd'') (hashedPath ''/app.css'' ''ab.cd'') \<noteq> ''/app.css''"
  by (simp add: fixed_hasher_def no_digest_component_def hashedPath_def canonicalPath_def
      path_split_def Let_def)

text \<open>
  C1, amended: for every digest \<open>h \<noteq> ""\<close> with \<open>IsHash(h)\<close> that contains neither a dot
  nor a slash, and every path \<open>c\<close>, \<open>canonicalPath(hashedPath(c, h)) = c\<close>. The candidate
  that \<open>canonicalPath\<close> checks in a hashed path is always the inserted digest, so the law
  needs nothing of \<open>c\<close>; it holds in particular for every canonical \<open>c\<close>.
\<close>

theorem canonicalPath_hashedPath_roundtrip:
  assumes ne: "h \<noteq> []" and ih: "IsHash hs h"
    and nodot: "CHR ''.'' \<notin> set h" and noslash: "CHR ''/'' \<notin> set h"
  shows "canonicalPath hs (hashedPath c h) = c"
proof -
  obtain d f where sp: "path_split c = (d, f)" by (cases "path_split c")
  from path_split_shape[OF sp]
  have c: "c = d @ f" and fs: "CHR ''/'' \<notin> set f" and d: "d = [] \<or> last d = CHR ''/''"
    by auto
  show ?thesis
  proof (cases "CHR ''.'' \<in> set f")
    case False
    then have i: "last_index f CHR ''.'' = -1" by (rule last_index_notin)
    have hp: "hashedPath c h = d @ f @ ''.'' @ h"
      using ne by (simp add: hashedPath_def sp i)
    have "CHR ''/'' \<notin> set (f @ ''.'' @ h)" using fs noslash by simp
    from canonicalPath_strip_last[OF False nodot ih this d] c show ?thesis
      unfolding hp by simp
  next
    case True
    then obtain a b where f: "f = a @ CHR ''.'' # b" and b: "CHR ''.'' \<notin> set b"
      by (meson split_list_last)
    have i: "last_index f CHR ''.'' = int (length a)"
      unfolding f using b by (rule last_index_append)
    show ?thesis
    proof (cases "a = []")
      case True
      have hp: "hashedPath c h = d @ ''.'' @ b @ ''.'' @ h"
        using ne True unfolding hashedPath_def sp Let_def prod.case i by (simp add: f)
      have "CHR ''/'' \<notin> set (b @ h)" using fs noslash f by simp
      from canonicalPath_dot_three[OF b nodot this d, of hs] ih c f True show ?thesis
        unfolding hp by simp
    next
      case False
      have hp: "hashedPath c h = d @ a @ ''.'' @ h @ ''.'' @ b"
        using ne False unfolding hashedPath_def sp Let_def prod.case i by (simp add: f)
      have "CHR ''/'' \<notin> set (a @ ''.'' @ h @ ''.'' @ b)" using fs noslash f by simp
      from canonicalPath_strip_middle[OF False b nodot ih this d] c f show ?thesis
        unfolding hp by simp
    qed
  qed
qed

theorem canonicalPath_hashedPath_roundtrip_witness:
  "''deadbeef'' \<noteq> [] \<and> IsHash (fixed_hasher ''deadbeef'') ''deadbeef'' \<and>
   no_digest_component (fixed_hasher ''deadbeef'') ''/css/app.css'' \<and>
   CHR ''.'' \<notin> set ''deadbeef'' \<and> CHR ''/'' \<notin> set ''deadbeef'' \<and>
   hashedPath ''/css/app.css'' ''deadbeef'' = ''/css/app.deadbeef.css'' \<and>
   canonicalPath (fixed_hasher ''deadbeef'') (hashedPath ''/css/app.css'' ''deadbeef'') = ''/css/app.css''"
proof -
  have h1: "''deadbeef'' \<noteq> []" by simp
  have h2: "IsHash (fixed_hasher ''deadbeef'') ''deadbeef''" by (simp add: fixed_hasher_def)
  have h3: "no_digest_component (fixed_hasher ''deadbeef'') ''/css/app.css''"
    by (simp add: no_digest_component_def fixed_hasher_def)
  have h4: "CHR ''.'' \<notin> set ''deadbeef''" by simp
  have h5: "CHR ''/'' \<notin> set ''deadbeef''" by simp
  have h6: "hashedPath ''/css/app.css'' ''deadbeef'' = ''/css/app.deadbeef.css''"
    by (simp add: hashedPath_def path_split_def Let_def)
  from canonicalPath_hashedPath_roundtrip[OF h1 h2 h4 h5, of "''/css/app.css''"] h1 h2 h3 h4 h5 h6
  show ?thesis by simp
qed

text \<open>
  C7. Dotfile safety. As stated the claim fails: a filename of exactly two segments with
  an empty first segment has its last segment as the candidate digest, and loses it when
  \<open>IsHash\<close> accepts it; the name \<open>.deadbeef\<close> under a hasher that accepts \<open>deadbeef\<close>
  becomes the empty filename.
\<close>

theorem dotfile_counterexample:
  "split_on ''.deadbeef'' CHR ''.'' = [[], ''deadbeef''] \<and>
   canonicalPath (fixed_hasher ''deadbeef'') ''/.deadbeef'' = ''/'' \<and>
   canonicalPath (fixed_hasher ''deadbeef'') ''/.deadbeef'' \<noteq> ''/.deadbeef''"
  by (simp add: fixed_hasher_def canonicalPath_def path_split_def Let_def)

text \<open>
  C7, amended: \<open>canonicalPath("/.env")\<close> returns \<open>/.env\<close> unchanged whenever the hasher
  does not classify \<open>env\<close> as a digest. In general a filename \<open>.b\<close> (two dot-separated
  segments, the first empty) keeps its last segment when \<open>IsHash\<close> rejects \<open>b\<close> and loses
  it when \<open>IsHash\<close> accepts \<open>b\<close>. A filename \<open>.b.h\<close> (three segments, the first empty) has
  its last segment \<open>h\<close> as the candidate, not the middle one: it becomes \<open>.b\<close> when
  \<open>IsHash\<close> accepts \<open>h\<close> and is returned unchanged when \<open>IsHash\<close> rejects \<open>h\<close>, whatever
  \<open>IsHash\<close> says of \<open>b\<close>.
\<close>

theorem canonicalPath_dotfile:
  assumes "CHR ''.'' \<notin> set b" and "CHR ''/'' \<notin> set b" and "d = [] \<or> last d = CHR ''/''"
  shows "(\<not> IsHash hs ''env'' \<longrightarrow> canonicalPath hs ''/.env'' = ''/.env'') \<and>
         canonicalPath hs (d @ ''.'' @ b) = (if IsHash hs b then d else d @ ''.'' @ b) \<and>
         (CHR ''.'' \<notin> set h \<and> CHR ''/'' \<notin> set h \<longrightarrow>
            canonicalPath hs (d @ ''.'' @ b @ ''.'' @ h) =
              (if IsHash hs h then d @ ''.'' @ b else d @ ''.'' @ b @ ''.'' @ h))"
proof (intro conjI impI)
  assume "\<not> IsHash hs ''env''"
  then show "canonicalPath hs ''/.env'' = ''/.env''"
    using canonicalPath_dot_two[of "''env''" "''/''" hs] by simp
next
  show "canonicalPath hs (d @ ''.'' @ b) = (if IsHash hs b then d else d @ ''.'' @ b)"
    using assms by (rule canonicalPath_dot_two)
next
  assume h: "CHR ''.'' \<notin> set h \<and> CHR ''/'' \<notin> set h"
  then have sl: "CHR ''/'' \<notin> set (b @ h)" using assms(2) by simp
  from h have nd: "CHR ''.'' \<notin> set h" by simp
  show "canonicalPath hs (d @ ''.'' @ b @ ''.'' @ h) =
          (if IsHash hs h then d @ ''.'' @ b else d @ ''.'' @ b @ ''.'' @ h)"
    using assms(1) nd sl assms(3) by (rule canonicalPath_dot_three)
qed

theorem canonicalPath_dotfile_witness:
  "CHR ''.'' \<notin> set ''env'' \<and> CHR ''/'' \<notin> set ''env'' \<and> last ''/'' = CHR ''/'' \<and>
   \<not> IsHash (fixed_hasher ''deadbeef'') ''env'' \<and>
   CHR ''.'' \<notin> set ''deadbeef'' \<and> CHR ''/'' \<notin> set ''deadbeef'' \<and>
   IsHash (fixed_hasher ''deadbeef'') ''deadbeef'' \<and>
   CHR ''.'' \<notin> set ''css'' \<and> CHR ''/'' \<notin> set ''css'' \<and>
   \<not> IsHash (fixed_hasher ''deadbeef'') ''css'' \<and>
   canonicalPath (fixed_hasher ''deadbeef'') ''/.env'' = ''/.env'' \<and>
   canonicalPath (fixed_hasher ''deadbeef'') ''/.env.deadbeef'' = ''/.env'' \<and>
   canonicalPath (fixed_hasher ''deadbeef'') ''/.deadbeef.css'' = ''/.deadbeef.css''"
proof -
  have h1: "CHR ''.'' \<notin> set ''env''" by simp
  have h2: "CHR ''/'' \<notin> set ''env''" by simp
  have h3: "''/'' = [] \<or> last ''/'' = CHR ''/''" by simp
  have h4: "\<not> IsHash (fixed_hasher ''deadbeef'') ''env''" by (simp add: fixed_hasher_def)
  have h5: "CHR ''.'' \<notin> set ''deadbeef'' \<and> CHR ''/'' \<notin> set ''deadbeef'' \<and>
            IsHash (fixed_hasher ''deadbeef'') ''deadbeef''"
    by (simp add: fixed_hasher_def)
  have h6: "CHR ''.'' \<notin> set ''css'' \<and> CHR ''/'' \<notin> set ''css'' \<and>
            \<not> IsHash (fixed_hasher ''deadbeef'') ''css''"
    by (simp add: fixed_hasher_def)
  have g1: "CHR ''.'' \<notin> set ''deadbeef''" by simp
  have g2: "CHR ''/'' \<notin> set ''deadbeef''" by simp
  from canonicalPath_dotfile[OF h1 h2 h3, of "fixed_hasher ''deadbeef''" "''deadbeef''"]
    canonicalPath_dotfile[OF g1 g2 h3, of "fixed_hasher ''deadbeef''" "''css''"]
    h1 h2 h4 h5 h6
  show ?thesis by simp
qed

section \<open>The file resolver: directory precedence\<close>

text \<open>
  C6. Directory fallback precedence: with an alternate directory configured, \<open>open\<close> tries
  it first and retries under the primary directory exactly when the alternate attempt
  fails with a not-exist error; any other error of the alternate attempt is returned
  unchanged after that single attempt; without an alternate directory \<open>open\<close> goes to
  the primary directory directly. The log lists the attempts made.
\<close>

theorem server_open_precedence:
  "(AltDir s = [] \<longrightarrow>
      server_open s w p st = (fs_open w (dir s) p, st\<lparr>io_log := io_log st @ [EvOpen (dir s) p]\<rparr>)) \<and>
   (AltDir s \<noteq> [] \<longrightarrow>
      (case fs_open w (AltDir s) p of
         Inr f \<Rightarrow>
           server_open s w p st = (Inr f, st\<lparr>io_log := io_log st @ [EvOpen (AltDir s) p]\<rparr>)
       | Inl e \<Rightarrow>
           if is_not_exist e then
             server_open s w p st =
               (fs_open w (dir s) p,
                st\<lparr>io_log := io_log st @ [EvOpen (AltDir s) p, EvOpen (dir s) p]\<rparr>)
           else
             server_open s w p st = (Inl e, st\<lparr>io_log := io_log st @ [EvOpen (AltDir s) p]\<rparr>)))"
  by (simp add: server_open_def open_in_def split: sum.splits)

theorem server_open_precedence_witness:
  "server_open ((new_server [] ''/srv'')\<lparr>AltDir := ''/alt''\<rparr>)
      (alt_error_world ''/alt'' OsPermission ''/srv'' ''/a.css'' (regular_file ''a.css''))
      ''/a.css'' new_state =
     (Inl OsPermission, \<lparr>hashes = Map.empty, io_log = [EvOpen ''/alt'' ''/a.css'']\<rparr>) \<and>
   server_open ((new_server [] ''/srv'')\<lparr>AltDir := ''/alt''\<rparr>)
      (alt_error_world ''/alt'' OsNotExist ''/srv'' ''/a.css'' (regular_file ''a.css''))
      ''/a.css'' new_state =
     (Inr (regular_file ''a.css''),
      \<lparr>hashes = Map.empty, io_log = [EvOpen ''/alt'' ''/a.css'', EvOpen ''/srv'' ''/a.css'']\<rparr>) \<and>
   server_open (new_server [] ''/srv'')
      (alt_error_world ''/alt'' OsPermission ''/srv'' ''/a.css'' (regular_file ''a.css''))
      ''/a.css'' new_state =
     (Inr (regular_file ''a.css''), \<lparr>hashes = Map.empty, io_log = [EvOpen ''/srv'' ''/a.css'']\<rparr>)"
  using
    server_open_precedence[of "(new_server [] ''/srv'')\<lparr>AltDir := ''/alt''\<rparr>"
      "alt_error_world ''/alt'' OsPermission ''/srv'' ''/a.css'' (regular_file ''a.css'')"
      "''/a.css''" new_state]
    server_open_precedence[of "(new_server [] ''/srv'')\<lparr>AltDir := ''/alt''\<rparr>"
      "alt_error_world ''/alt'' OsNotExist ''/srv'' ''/a.css'' (regular_file ''a.css'')"
      "''/a.css''" new_state]
    server_open_precedence[of "new_server [] ''/srv''"
      "alt_error_world ''/alt'' OsPermission ''/srv'' ''/a.css'' (regular_file ''a.css'')"
      "''/a.css''" new_state]
  by (simp add: new_server_def alt_error_world_def new_state_def is_not_exist_def)

section \<open>The hash cache: memoisation and filename recovery\<close>

lemma hash_success_cached:
  assumes "hash s hs w p st = ((h, c, None), st')"
  shows "hashes st' p = Some h"
  using assms
  by (auto simp: hash_def Let_def split: option.splits prod.splits sum.splits if_splits)

lemma hash_fixture:
  "hash ((new_server r ''/srv'')\<lparr>Hasher := Some (fixed_hasher ''deadbeef'')\<rparr>) (fixed_hasher ''deadbeef'')
     (one_entry_world ''/srv'' ''/css/app.css'' (regular_file ''app.css'')) ''/css/app.css'' new_state =
   ((''deadbeef'', False, None),
    \<lparr>hashes = [''/css/app.css'' \<mapsto> ''deadbeef''],
     io_log = [EvOpen ''/srv'' ''/css/app.css'', EvHash ''/css/app.css'']\<rparr>)"
  by (simp add: hash_def server_open_def open_in_def new_server_def one_entry_world_def
      regular_file_def is_regular_def fixed_hasher_def new_state_def)

text \<open>
  C8. Idempotent cache: when a call of \<open>hash\<close> on \<open>p\<close> returns \<open>h\<close> without error, the
  next call on \<open>p\<close> returns \<open>h\<close> again and leaves the state, with its log of opens and
  \<open>Hasher.Hash\<close> calls, as it was; it does so whatever the filesystem and the hasher
  would answer, since it asks neither.
\<close>

theorem hash_idempotent:
  assumes "hash s hs w p st = ((h, c, None), st')"
  shows "hash s hs' w' p st' = ((h, False, None), st')"
  using hash_success_cached[OF assms] by (simp add: hash_def)

theorem hash_idempotent_witness:
  "hash ((new_server [] ''/srv'')\<lparr>Hasher := Some (fixed_hasher ''deadbeef'')\<rparr>) (fixed_hasher ''deadbeef'')
     (one_entry_world ''/srv'' ''/css/app.css'' (regular_file ''app.css'')) ''/css/app.css'' new_state =
   ((''deadbeef'', False, None),
    \<lparr>hashes = [''/css/app.css'' \<mapsto> ''deadbeef''],
     io_log = [EvOpen ''/srv'' ''/css/app.css'', EvHash ''/css/app.css'']\<rparr>) \<and>
   hash ((new_server [] ''/srv'')\<lparr>Hasher := Some (fixed_hasher ''deadbeef'')\<rparr>) (fixed_hasher ''deadbeef'')
     (one_entry_world ''/srv'' ''/css/app.css'' (regular_file ''app.css'')) ''/css/app.css''
     \<lparr>hashes = [''/css/app.css'' \<mapsto> ''deadbeef''],
      io_log = [EvOpen ''/srv'' ''/css/app.css'', EvHash ''/css/app.css'']\<rparr> =
   ((''deadbeef'', False, None),
    \<lparr>hashes = [''/css/app.css'' \<mapsto> ''deadbeef''],
     io_log = [EvOpen ''/srv'' ''/css/app.css'', EvHash ''/css/app.css'']\<rparr>)"
  using hash_fixture[of "[]"] hash_idempotent[OF hash_fixture[of "[]"]] by simp

lemma scan_matches_None:
  "(scan_matches hs p ext ms h = None) =
   (\<exists>m\<in>set ms. is_candidate hs p m \<and> \<not> IsHash hs (digest_segment ext m))"
  by (induction ms arbitrary: h) (auto simp: Let_def)

lemma glob_matches_hashes: "glob_matches s w p ext fn st = (r, st1) \<Longrightarrow> hashes st1 = hashes st"
  by (auto simp: glob_matches_def glob_in_def Let_def split: if_splits sum.splits prod.splits)

lemma find_matches_hashes: "find_matches s w p st = (r, st1) \<Longrightarrow> hashes st1 = hashes st"
  by (auto simp: find_matches_def Let_def split: option.splits dest: glob_matches_hashes)

lemma unhashed_only_fixture:
  "find_matches ((new_server [] ''/srv'')\<lparr>Filenames := Some [''/srv/app.css'']\<rparr>) w ''/app.css'' new_state =
     (Inr [''/srv/app.css''], new_state) \<and>
   is_candidate (fixed_hasher ''deadbeef'') ''/app.css'' ''/srv/app.css'' \<and>
   digest_segment (filepath_ext ''/app.css'') ''/srv/app.css'' = [] \<and>
   \<not> IsHash (fixed_hasher ''deadbeef'') []"
  by (simp add: find_matches_def filename_matches_def new_server_def filepath_ext_def
      trim_suffix_def has_suffix_def has_prefix_def path_clean_def is_candidate_def
      canonicalPath_def path_split_def fixed_hasher_def digest_segment_def trim_left_def Let_def)

text \<open>
  C3. Filename-pattern recovery failure. As stated the claim fails twice. When the only
  candidate is the unhashed file itself, its digest segment is empty, \<open>IsHash\<close> rejects it
  and \<open>hashFromFilename\<close> returns \<open>errNotFound\<close> with \<open>cont = true\<close>, not \<open>false\<close>. When
  no enumerated filename is a candidate at all (here a copy with a digest the hasher does
  not accept), it returns the empty digest with a nil error and caches it.
\<close>

theorem hashFromFilename_counterexample:
  "hashFromFilename ((new_server [] ''/srv'')\<lparr>Filenames := Some [''/srv/app.css'']\<rparr>)
     (fixed_hasher ''deadbeef'') (one_entry_world ''/srv'' ''/app.css'' (regular_file ''app.css''))
     ''/app.css'' new_state = (([], True, Some ErrNotFound), new_state) \<and>
   hashFromFilename ((new_server [] ''/srv'')\<lparr>Filenames := Some [''/srv/app.0badc0de.css'']\<rparr>)
     (fixed_hasher ''deadbeef'') (one_entry_world ''/srv'' ''/app.0badc0de.css'' (regular_file ''app.0badc0de.css''))
     ''/app.css'' new_state =
     (([], False, None), \<lparr>hashes = [''/app.css'' \<mapsto> []], io_log = []\<rparr>)"
  by (simp add: hashFromFilename_def find_matches_def filename_matches_def new_server_def filepath_ext_def
      trim_suffix_def has_suffix_def has_prefix_def path_clean_def is_candidate_def
      canonicalPath_def path_split_def fixed_hasher_def digest_segment_def trim_left_def Let_def
      new_state_def)

text \<open>
  C3, amended: on a cache miss, when some match whose canonical form ends with \<open>p\<close> has a
  digest segment that \<open>IsHash\<close> rejects, \<open>hashFromFilename\<close> returns \<open>errNotFound\<close> with
  \<open>cont = true\<close> and an empty digest, and stores nothing in the cache.
\<close>

theorem hashFromFilename_invalid_candidate:
  assumes miss: "hashes st p = None"
    and found: "find_matches s w p st = (Inr matches, st1)"
    and bad: "\<exists>m\<in>set matches. is_candidate hs p m \<and> \<not> IsHash hs (digest_segment (filepath_ext p) m)"
  shows "hashFromFilename s hs w p st = (([], True, Some ErrNotFound), st1) \<and> hashes st1 = hashes st"
proof -
  have "scan_matches hs p (filepath_ext p) matches [] = None"
    using bad by (simp add: scan_matches_None)
  then have "hashFromFilename s hs w p st = (([], True, Some ErrNotFound), st1)"
    by (simp add: hashFromFilename_def miss found)
  with find_matches_hashes[OF found] show ?thesis by simp
qed

theorem hashFromFilename_invalid_candidate_witness:
  "hashes new_state ''/app.css'' = None \<and>
   find_matches ((new_server [] ''/srv'')\<lparr>Filenames := Some [''/srv/app.css'']\<rparr>)
     (one_entry_world ''/srv'' ''/app.css'' (regular_file ''app.css'')) ''/app.css'' new_state =
     (Inr [''/srv/app.css''], new_state) \<and>
   is_candidate (fixed_hasher ''deadbeef'') ''/app.css'' ''/srv/app.css'' \<and>
   \<not> IsHash (fixed_hasher ''deadbeef'') (digest_segment (filepath_ext ''/app.css'') ''/srv/app.css'') \<and>
   hashFromFilename ((new_server [] ''/srv'')\<lparr>Filenames := Some [''/srv/app.css'']\<rparr>)
     (fixed_hasher ''deadbeef'') (one_entry_world ''/srv'' ''/app.css'' (regular_file ''app.css''))
     ''/app.css'' new_state = (([], True, Some ErrNotFound), new_state)"
proof -
  let ?s = "(new_server [] ''/srv'')\<lparr>Filenames := Some [''/srv/app.css'']\<rparr>"
  let ?w = "one_entry_world ''/srv'' ''/app.css'' (regular_file ''app.css'')"
  have h1: "hashes new_state ''/app.css'' = None" by (simp add: new_state_def)
  have h2: "find_matches ?s ?w ''/app.css'' new_state = (Inr [''/srv/app.css''], new_state)"
    using unhashed_only_fixture by simp
  have h3: "\<exists>m\<in>set [''/srv/app.css'']. is_candidate (fixed_hasher ''deadbeef'') ''/app.css'' m \<and>
              \<not> IsHash (fixed_hasher ''deadbeef'') (digest_segment (filepath_ext ''/app.css'') m)"
    using unhashed_only_fixture by simp
  from hashFromFilename_invalid_candidate[OF h1 h2 h3] h1 h2 unhashed_only_fixture
  show ?thesis by simp
qed

section \<open>The public entry points: link generation and request resolution\<close>

text \<open>
  C10. Without a hasher, \<open>HashedPath(p)\<close> returns \<open>path.Join(root, p)\<close> and a nil error,
  and the state (the cache and the log of filesystem calls) is as before.
\<close>

theorem HashedPath_no_hasher:
  "Hasher s = None \<Longrightarrow> HashedPath s w p st = (Inr (path_join [root s, p]), st)"
  by (simp add: HashedPath_def)

theorem HashedPath_no_hasher_witness:
  "Hasher (new_server ''/static'' ''/srv'') = None \<and>
   HashedPath (new_server ''/static'' ''/srv'') (one_entry_world ''/srv'' ''/css/app.css'' (regular_file ''app.css''))
     ''/css/app.css'' new_state = (Inr ''/static/css/app.css'', new_state)"
proof -
  have h: "Hasher (new_server ''/static'' ''/srv'') = None" by (simp add: new_server_def)
  have j: "path_join [root (new_server ''/static'' ''/srv''), ''/css/app.css''] = ''/static/css/app.css''"
    by (simp add: new_server_def path_clean_def)
  from HashedPath_no_hasher[OF h] h j show ?thesis by simp
qed

lemma request_fixture:
  "request_urlPath \<lparr>url_path = ''/static/css/app.css'', raw_query = []\<rparr> = ''/static/css/app.css'' \<and>
   request_p ((new_server ''/static'' ''/srv'')\<lparr>Hasher := Some (fixed_hasher ''deadbeef'')\<rparr>)
     \<lparr>url_path = ''/static/css/app.css'', raw_query = []\<rparr> = ''/css/app.css''"
  by (simp add: request_urlPath_def request_p_def new_server_def has_prefix_def trim_prefix_def
      path_clean_def)

lemma codec_fixture:
  "canonicalPath (fixed_hasher ''deadbeef'') ''/css/app.css'' = ''/css/app.css'' \<and>
   hashedPath ''/css/app.css'' ''deadbeef'' = ''/css/app.deadbeef.css''"
  by (simp add: canonicalPath_def hashedPath_def path_split_def fixed_hasher_def Let_def)

text \<open>
  \<open>urlPath\<close> always begins with a slash, so reading its last byte (line 76) cannot fail.
\<close>

lemma request_urlPath_nonempty: "request_urlPath r \<noteq> []"
  by (auto simp: request_urlPath_def has_prefix_def)

text \<open>
  C2. Hash redirect: with a hasher configured, when the request reaches the digest lookup
  (the hash block is enabled for the request, the root prefix was stripped and the
  index-page redirect did not fire) and the lookup for the canonical form of the cleaned
  path \<open>p\<close> succeeds with \<open>h\<close>, and the hashed path built from them differs from \<open>p\<close>,
  \<open>ServeHTTP\<close> redirects to \<open>path.Join(root, hashedPath)\<close>.
\<close>

theorem ServeHTTP_hash_redirect:
  assumes hasher: "Hasher s = Some hs" and enabled: "hash_enabled s r"
    and stripped: "root s = [] \<or> length (request_p s r) < length (request_urlPath r)"
    and noindex: "IndexPage s = [] \<or> \<not> has_suffix (request_urlPath r) (IndexPage s)"
    and lookup: "hash s hs w (canonicalPath hs (request_p s r)) st = ((h, cont, None), st')"
    and differs: "hashedPath (canonicalPath hs (request_p s r)) h \<noteq> request_p s r"
  shows "ServeHTTP s w r st =
           (Redirect (path_join [root s, hashedPath (canonicalPath hs (request_p s r)) h]), st')"
proof -
  have a: "\<not> (root s \<noteq> [] \<and> length (request_urlPath r) \<le> length (request_p s r))"
    using stripped by auto
  have b: "\<not> (IndexPage s \<noteq> [] \<and> has_suffix (request_urlPath r) (IndexPage s))"
    using noindex by auto
  show ?thesis
    unfolding ServeHTTP_def Let_def
    by (simp add: a b hasher enabled lookup differs del: path_join.simps)
qed

theorem ServeHTTP_hash_redirect_witness:
  "ServeHTTP ((new_server ''/static'' ''/srv'')\<lparr>Hasher := Some (fixed_hasher ''deadbeef'')\<rparr>)
     (one_entry_world ''/srv'' ''/css/app.css'' (regular_file ''app.css''))
     \<lparr>url_path = ''/static/css/app.css'', raw_query = []\<rparr> new_state =
   (Redirect ''/static/css/app.deadbeef.css'',
    \<lparr>hashes = [''/css/app.css'' \<mapsto> ''deadbeef''],
     io_log = [EvOpen ''/srv'' ''/css/app.css'', EvHash ''/css/app.css'']\<rparr>)"
proof -
  let ?s = "(new_server ''/static'' ''/srv'')\<lparr>Hasher := Some (fixed_hasher ''deadbeef'')\<rparr>"
  let ?r = "\<lparr>url_path = ''/static/css/app.css'', raw_query = []\<rparr>"
  let ?w = "one_entry_world ''/srv'' ''/css/app.css'' (regular_file ''app.css'')"
  have h1: "Hasher ?s = Some (fixed_hasher ''deadbeef'')" by (simp add: new_server_def)
  have h2: "hash_enabled ?s ?r" by (simp add: hash_enabled_def new_server_def)
  have h3: "root ?s = [] \<or> length (request_p ?s ?r) < length (request_urlPath ?r)"
    using request_fixture by simp
  have h4: "IndexPage ?s = [] \<or> \<not> has_suffix (request_urlPath ?r) (IndexPage ?s)"
    by (simp add: new_server_def)
  have h5: "hash ?s (fixed_hasher ''deadbeef'') ?w
              (canonicalPath (fixed_hasher ''deadbeef'') (request_p ?s ?r)) new_state =
            ((''deadbeef'', False, None),
             \<lparr>hashes = [''/css/app.css'' \<mapsto> ''deadbeef''],
              io_log = [EvOpen ''/srv'' ''/css/app.css'', EvHash ''/css/app.css'']\<rparr>)"
    using hash_fixture[of "''/static''"] request_fixture codec_fixture by simp
  have h6: "hashedPath (canonicalPath (fixed_hasher ''deadbeef'') (request_p ?s ?r)) ''deadbeef''
              \<noteq> request_p ?s ?r"
    using request_fixture codec_fixture by simp
  have j: "path_join [root ?s, ''/css/app.deadbeef.css''] = ''/static/css/app.deadbeef.css''"
    by (simp add: new_server_def path_clean_def)
  from ServeHTTP_hash_redirect[OF h1 h2 h3 h4 h5 h6] request_fixture codec_fixture j
  show ?thesis by simp
qed

lemma httpError_err: "httpError e = HttpError hdl e' \<Longrightarrow> e' = e"
  by (simp add: httpError_def split: if_splits)

lemma server_open_result:
  "server_open s w p st = (r, st1) \<Longrightarrow> \<exists>d. fs_open w d p = r"
  by (auto simp: server_open_def open_in_def split: if_splits sum.splits prod.splits)

lemma serve_path_never_NotRegularFile:
  assumes opens: "\<And>d p. fs_open w d p \<noteq> Inl ErrNotRegularFile"
    and stats: "\<And>d p f. fs_open w d p = Inr f \<Longrightarrow> f_stat f \<noteq> Inl ErrNotRegularFile"
  shows "fst (serve_path s w p url st) \<noteq> HttpError hdl ErrNotRegularFile"
proof -
  obtain r st1 where so: "server_open s w p st = (r, st1)" by (cases "server_open s w p st")
  from server_open_result[OF so] obtain d0 where d0: "fs_open w d0 p = r" by blast
  show ?thesis
  proof (cases r)
    case (Inl e)
    with d0 opens have "e \<noteq> ErrNotRegularFile" by metis
    with Inl so show ?thesis by (auto simp: serve_path_def dest: httpError_err)
  next
    case (Inr f)
    show ?thesis
    proof (cases "f_stat f")
      case (Inl e)
      with stats d0 Inr have "e \<noteq> ErrNotRegularFile" by metis
      with Inl Inr so show ?thesis by (auto simp: serve_path_def dest: httpError_err)
    next
      case (Inr d)
      with \<open>r = Inr f\<close> so show ?thesis
        by (auto simp: serve_path_def slash_redirect_def httpError_def is_not_exist_def
            split: option.splits prod.splits if_splits)
    qed
  qed
qed

lemma ServeHTTP_never_NotRegularFile:
  assumes opens: "\<And>d p. fs_open w d p \<noteq> Inl ErrNotRegularFile"
    and stats: "\<And>d p f. fs_open w d p = Inr f \<Longrightarrow> f_stat f \<noteq> Inl ErrNotRegularFile"
  shows "fst (ServeHTTP s w r st) \<noteq> HttpError hdl ErrNotRegularFile"
  using serve_path_never_NotRegularFile[OF opens stats]
  by (auto simp: ServeHTTP_def Let_def httpError_def is_not_exist_def
      split: option.splits prod.splits if_splits)

lemma directory_fixture:
  "server_open ((new_server [] ''/srv'')\<lparr>Hasher := Some (fixed_hasher ''deadbeef'')\<rparr>)
     (one_entry_world ''/srv'' ''/docs'' (directory ''docs'')) ''/docs'' new_state =
     (Inr (directory ''docs''), \<lparr>hashes = Map.empty, io_log = [EvOpen ''/srv'' ''/docs'']\<rparr>) \<and>
   request_urlPath \<lparr>url_path = ''/docs'', raw_query = []\<rparr> = ''/docs'' \<and>
   request_p ((new_server [] ''/srv'')\<lparr>Hasher := Some (fixed_hasher ''deadbeef'')\<rparr>)
     \<lparr>url_path = ''/docs'', raw_query = []\<rparr> = ''/docs'' \<and>
   canonicalPath (fixed_hasher ''deadbeef'') ''/docs'' = ''/docs'' \<and>
   serve_path ((new_server [] ''/srv'')\<lparr>Hasher := Some (fixed_hasher ''deadbeef'')\<rparr>)
     (one_entry_world ''/srv'' ''/docs'' (directory ''docs'')) ''/docs'' ''/docs''
     \<lparr>hashes = Map.empty, io_log = [EvOpen ''/srv'' ''/docs'']\<rparr> =
     (HttpError NotFoundHandler ErrNotFound,
      \<lparr>hashes = Map.empty,
       io_log = [EvOpen ''/srv'' ''/docs'', EvOpen ''/srv'' ''/docs'', EvOpen ''/srv'' ''/docs'']\<rparr>)"
  by (simp add: server_open_def open_in_def new_server_def one_entry_world_def directory_def
      new_state_def request_urlPath_def request_p_def has_prefix_def path_clean_def
      canonicalPath_def path_split_def fixed_hasher_def serve_path_def serve_index_def
      is_dir_def trim_suffix_def has_suffix_def httpError_def is_not_exist_def Let_def)

text \<open>
  C4. \<open>errNotRegularFile\<close> is never surfaced. As stated the claim fails for \<open>HashedPath\<close>:
  on a directory the lookup returns \<open>errNotRegularFile\<close> with \<open>cont = false\<close>, and
  \<open>HashedPath\<close> returns that error to its caller.
\<close>

theorem HashedPath_directory_counterexample:
  "hash ((new_server [] ''/srv'')\<lparr>Hasher := Some (fixed_hasher ''deadbeef'')\<rparr>) (fixed_hasher ''deadbeef'')
     (one_entry_world ''/srv'' ''/docs'' (directory ''docs'')) ''/docs'' new_state =
     (([], False, Some ErrNotRegularFile), \<lparr>hashes = Map.empty, io_log = [EvOpen ''/srv'' ''/docs'']\<rparr>) \<and>
   HashedPath ((new_server [] ''/srv'')\<lparr>Hasher := Some (fixed_hasher ''deadbeef'')\<rparr>)
     (one_entry_world ''/srv'' ''/docs'' (directory ''docs'')) ''/docs'' new_state =
     (Inl ErrNotRegularFile, \<lparr>hashes = Map.empty, io_log = [EvOpen ''/srv'' ''/docs'']\<rparr>)"
  by (simp add: HashedPath_def hash_def server_open_def open_in_def new_server_def
      one_entry_world_def directory_def is_regular_def new_state_def)

text \<open>
  C4, amended: the lookup returns \<open>errNotRegularFile\<close> (with \<open>cont = false\<close>) for an entry
  that opens and stats but is not a regular file. \<open>ServeHTTP\<close> converts that error of the
  lookup into the fallback path: it continues with the ordinary open of the unrewritten
  path, and it never hands \<open>errNotRegularFile\<close> to \<open>httpError\<close> (given that the
  filesystem itself does not produce the package's sentinel). \<open>HashedPath\<close> has no such
  fallback and returns the error to its caller.
\<close>

theorem NotRegularFile_handling:
  assumes hasher: "Hasher s = Some hs"
    and opens: "\<And>d p. fs_open w d p \<noteq> Inl ErrNotRegularFile"
    and stats: "\<And>d p f. fs_open w d p = Inr f \<Longrightarrow> f_stat f \<noteq> Inl ErrNotRegularFile"
  shows
    "(hashes st p = None \<and> server_open s w p st = (Inr f, st1) \<and> f_stat f = Inr d \<and> \<not> is_regular d
        \<longrightarrow> hash s hs w p st = (([], False, Some ErrNotRegularFile), st1)) \<and>
     (hash_enabled s r \<and>
      (root s = [] \<or> length (request_p s r) < length (request_urlPath r)) \<and>
      (IndexPage s = [] \<or> \<not> has_suffix (request_urlPath r) (IndexPage s)) \<and>
      hash s hs w (canonicalPath hs (request_p s r)) st = ((h, cont, Some ErrNotRegularFile), st')
        \<longrightarrow> ServeHTTP s w r st = serve_path s w (request_p s r) (request_urlPath r) st') \<and>
     fst (ServeHTTP s w r st) \<noteq> HttpError hdl ErrNotRegularFile \<and>
     (hash s hs w p st = ((h, False, Some ErrNotRegularFile), st')
        \<longrightarrow> HashedPath s w p st = (Inl ErrNotRegularFile, st'))"
proof (intro conjI impI)
  assume "hashes st p = None \<and> server_open s w p st = (Inr f, st1) \<and> f_stat f = Inr d \<and> \<not> is_regular d"
  then show "hash s hs w p st = (([], False, Some ErrNotRegularFile), st1)"
    by (simp add: hash_def)
next
  assume a: "hash_enabled s r \<and>
      (root s = [] \<or> length (request_p s r) < length (request_urlPath r)) \<and>
      (IndexPage s = [] \<or> \<not> has_suffix (request_urlPath r) (IndexPage s)) \<and>
      hash s hs w (canonicalPath hs (request_p s r)) st = ((h, cont, Some ErrNotRegularFile), st')"
  then have g1: "\<not> (root s \<noteq> [] \<and> length (request_urlPath r) \<le> length (request_p s r))"
    and g2: "\<not> (IndexPage s \<noteq> [] \<and> has_suffix (request_urlPath r) (IndexPage s))"
    by auto
  from a show "ServeHTTP s w r st = serve_path s w (request_p s r) (request_urlPath r) st'"
    unfolding ServeHTTP_def Let_def by (simp add: g1 g2 hasher)
next
  show "fst (ServeHTTP s w r st) \<noteq> HttpError hdl ErrNotRegularFile"
    using opens stats by (rule ServeHTTP_never_NotRegularFile)
next
  assume "hash s hs w p st = ((h, False, Some ErrNotRegularFile), st')"
  then show "HashedPath s w p st = (Inl ErrNotRegularFile, st')"
    by (simp add: HashedPath_def hasher)
qed

theorem NotRegularFile_handling_witness:
  "hash ((new_server [] ''/srv'')\<lparr>Hasher := Some (fixed_hasher ''deadbeef'')\<rparr>) (fixed_hasher ''deadbeef'')
     (one_entry_world ''/srv'' ''/docs'' (directory ''docs'')) ''/docs'' new_state =
     (([], False, Some ErrNotRegularFile), \<lparr>hashes = Map.empty, io_log = [EvOpen ''/srv'' ''/docs'']\<rparr>) \<and>
   ServeHTTP ((new_server [] ''/srv'')\<lparr>Hasher := Some (fixed_hasher ''deadbeef'')\<rparr>)
     (one_entry_world ''/srv'' ''/docs'' (directory ''docs''))
     \<lparr>url_path = ''/docs'', raw_query = []\<rparr> new_state =
     (HttpError NotFoundHandler ErrNotFound,
      \<lparr>hashes = Map.empty,
       io_log = [EvOpen ''/srv'' ''/docs'', EvOpen ''/srv'' ''/docs'', EvOpen ''/srv'' ''/docs'']\<rparr>) \<and>
   HashedPath ((new_server [] ''/srv'')\<lparr>Hasher := Some (fixed_hasher ''deadbeef'')\<rparr>)
     (one_entry_world ''/srv'' ''/docs'' (directory ''docs'')) ''/docs'' new_state =
     (Inl ErrNotRegularFile, \<lparr>hashes = Map.empty, io_log = [EvOpen ''/srv'' ''/docs'']\<rparr>)"
proof -
  let ?s = "(new_server [] ''/srv'')\<lparr>Hasher := Some (fixed_hasher ''deadbeef'')\<rparr>"
  let ?w = "one_entry_world ''/srv'' ''/docs'' (directory ''docs'')"
  let ?r = "\<lparr>url_path = ''/docs'', raw_query = []\<rparr>"
  let ?st1 = "\<lparr>hashes = Map.empty, io_log = [EvOpen ''/srv'' ''/docs'']\<rparr>"
  have h1: "Hasher ?s = Some (fixed_hasher ''deadbeef'')" by (simp add: new_server_def)
  have h2: "\<And>d p. fs_open ?w d p \<noteq> Inl ErrNotRegularFile" by (simp add: one_entry_world_def)
  have h3: "\<And>d p f. fs_open ?w d p = Inr f \<Longrightarrow> f_stat f \<noteq> Inl ErrNotRegularFile"
    by (auto simp: one_entry_world_def directory_def split: if_splits)
  note t = NotRegularFile_handling[where s = ?s and w = ?w and st = new_state and p = "''/docs''"
      and f = "directory ''docs''" and ?st1.0 = ?st1
      and d = "\<lparr>fi_name = ''docs'', fi_mod_time = 0, fi_mode = Directory\<rparr>"
      and r = ?r and h = "[]" and cont = False and st' = ?st1, OF h1 h2 h3]
  have p1: "hashes new_state ''/docs'' = None \<and> f_stat (directory ''docs'') =
              Inr \<lparr>fi_name = ''docs'', fi_mod_time = 0, fi_mode = Directory\<rparr> \<and>
            \<not> is_regular \<lparr>fi_name = ''docs'', fi_mod_time = 0, fi_mode = Directory\<rparr>"
    by (simp add: new_state_def directory_def is_regular_def)
  have p2: "hash_enabled ?s ?r \<and> root ?s = [] \<and> IndexPage ?s = []"
    by (simp add: hash_enabled_def new_server_def)
  from t p1 p2 directory_fixture show ?thesis by simp
qed

text \<open>
  The root-prefix check compares the length of the stripped path with the length of the
  raw \<open>r.URL.Path\<close>. For a request path that \<open>path.Clean\<close> leaves unchanged the two
  lengths are those of the same string, and a path without the prefix is not found.
\<close>

lemma ServeHTTP_root_prefix_clean_request:
  assumes "root s \<noteq> []" and "path_clean (request_urlPath r) = request_urlPath r"
    and "\<not> has_prefix (request_urlPath r) (root s)"
  shows "ServeHTTP s w r st = (HttpError NotFoundHandler ErrNotFound, st)"
  using assms
  by (simp add: ServeHTTP_def request_p_def trim_prefix_def httpError_def Let_def)

text \<open>
  C5. Root-prefix stripping: a request whose cleaned path does not begin with the
  configured root should be answered not-found. The code compares the stripped path with
  the raw path, not with the cleaned one, and misses a request that cleaning shortens:
  with root \<open>/static\<close>, the request path \<open>//a\<close> is cleaned to \<open>/a\<close>, which does not
  begin with the root; \<open>TrimPrefix\<close> leaves it at length 2, less than the raw length 3,
  so the not-found branch is skipped and the file \<open>/a\<close> of the directory is served.
\<close>

theorem ServeHTTP_unclean_path_escapes_root:
  "request_urlPath \<lparr>url_path = ''//a'', raw_query = []\<rparr> = ''//a'' \<and>
   path_clean ''//a'' = ''/a'' \<and>
   \<not> has_prefix ''/a'' ''/static'' \<and>
   trim_prefix ''/a'' ''/static'' = ''/a'' \<and>
   ServeHTTP (new_server ''/static'' ''/srv'')
     (one_entry_world ''/srv'' ''/a'' (regular_file ''a''))
     \<lparr>url_path = ''//a'', raw_query = []\<rparr> new_state =
   (ServeContent ''a'' 0 (regular_file ''a''),
    \<lparr>hashes = Map.empty, io_log = [EvOpen ''/srv'' ''/a'']\<rparr>)"
  by (simp add: ServeHTTP_def request_urlPath_def request_p_def new_server_def has_prefix_def
      trim_prefix_def path_clean_def serve_path_def server_open_def open_in_def
      one_entry_world_def regular_file_def serve_index_def is_dir_def new_state_def Let_def)

end
